theory Spec2Isabelle
  imports Complex_Main "HOL-Library.Sublist"
begin

section \<open>Errors and text\<close>

text \<open>
  The exceptions the modelled functions can raise. A raise is the value \<open>Inl e\<close> of a
  result \<open>py_error + 'a\<close>. \<open>BackendError msg\<close> is an exception raised by the model
  client's \<open>generate_content\<close>, carrying \<open>str(e)\<close>.
\<close>

datatype py_error = IndexError | ValueError | ZeroDivisionError | BackendError string

text \<open>
  Text is a \<open>string\<close>: a list of 8-bit characters, read as the code points 0 to 255.
  \<open>str.lower()\<close> maps \<open>A\<close> to \<open>Z\<close> and the upper-case letters of Latin-1 (192 to 222
  without 215) to the letter 32 places further; \<open>\d\<close> matches the ten digits, the only
  decimal digits among these code points.
\<close>

definition lower_char :: "char \<Rightarrow> char" where
  "lower_char c =
     (let n = (of_char c :: nat)
      in if (65 \<le> n \<and> n \<le> 90) \<or> (192 \<le> n \<and> n \<le> 222 \<and> n \<noteq> 215)
         then char_of (n + 32) else c)"

definition lower :: "string \<Rightarrow> string" where
  "lower s = map lower_char s"

definition isdigit :: "char \<Rightarrow> bool" where
  "isdigit c = (48 \<le> (of_char c :: nat) \<and> (of_char c :: nat) \<le> 57)"

text \<open>\<open>s.replace('%', '')\<close>: every percent sign is removed.\<close>

definition replace_percent :: "string \<Rightarrow> string" where
  "replace_percent s = filter (\<lambda>c. c \<noteq> CHR ''%'') s"

text \<open>
  \<open>int(s)\<close> on a string of decimal digits; Python's integers are unbounded. The strings
  that reach \<open>int\<close> in \<open>get_rate\<close> hold digits only, so signs, blanks and underscores
  are not modelled: any other string, and the empty one, is a \<open>ValueError\<close>.
\<close>

definition digit_val :: "char \<Rightarrow> int" where
  "digit_val c = int (of_char c) - 48"

definition decimal :: "string \<Rightarrow> int" where
  "decimal s = foldl (\<lambda>n c. 10 * n + digit_val c) 0 s"

definition py_int :: "string \<Rightarrow> py_error + int" where
  "py_int s = (if s \<noteq> [] \<and> list_all isdigit s then Inr (decimal s) else Inl ValueError)"

section \<open>Response parser: the patterns of \<open>get_rate\<close>\<close>

text \<open>
  The three regular expressions of \<open>get_rate\<close> are sequences of literal text and of the
  group \<open>(\d+%)\<close>:
  \<^verbatim>\<open>\(decrease (\d+%) \| increase (\d+%)\)\<close>,
  \<^verbatim>\<open>\(increase (\d+%) \| decrease (\d+%)\)\<close> and
  \<^verbatim>\<open>\(informativeness: (\d+%)\)\<close>.
\<close>

datatype rx = Lit string | DigitsPct

definition forecast_pattern_1 :: "rx list" where
  "forecast_pattern_1 = [Lit ''(decrease '', DigitsPct, Lit '' | increase '', DigitsPct, Lit '')'']"

definition forecast_pattern_2 :: "rx list" where
  "forecast_pattern_2 = [Lit ''(increase '', DigitsPct, Lit '' | decrease '', DigitsPct, Lit '')'']"

definition informativeness_pattern :: "rx list" where
  "informativeness_pattern = [Lit ''(informativeness: '', DigitsPct, Lit '')'']"

text \<open>
  \<open>match_rx p s\<close> matches \<open>p\<close> at the start of \<open>s\<close> and gives the captured groups and
  the text after the match. \<open>\d+\<close> is greedy and the character after it must be the
  percent sign, which is no digit, so giving digits back can never help: the longest run
  of digits is the only candidate.
\<close>

fun match_rx :: "rx list \<Rightarrow> string \<Rightarrow> (string list \<times> string) option" where
  "match_rx [] s = Some ([], s)"
| "match_rx (Lit l # p) s =
     (if prefix l s then match_rx p (drop (length l) s) else None)"
| "match_rx (DigitsPct # p) s =
     (let ds = takeWhile isdigit s; r = dropWhile isdigit s
      in if ds = [] then None
         else (case r of
                 [] \<Rightarrow> None
               | c # r' \<Rightarrow>
                   if c = CHR ''%''
                   then (case match_rx p r' of
                           None \<Rightarrow> None
                         | Some (gs, rest) \<Rightarrow> Some ((ds @ ''%'') # gs, rest))
                   else None))"

text \<open>
  \<open>pattern.findall(s)\<close>: the groups of every match, scanning from the left; the scan
  goes on after the end of a match, and one character further where there is none. (A
  match of an empty pattern consumes nothing; the scan then moves one character on.)
\<close>

function findall :: "rx list \<Rightarrow> string \<Rightarrow> string list list" where
  "findall p s =
     (case match_rx p s of
        None \<Rightarrow> (case s of [] \<Rightarrow> [] | c # cs \<Rightarrow> findall p cs)
      | Some (gs, rest) \<Rightarrow>
          if length rest < length s then gs # findall p rest
          else gs # (case s of [] \<Rightarrow> [] | c # cs \<Rightarrow> findall p cs))"
  by pat_completeness auto
termination
  by (relation "measure (\<lambda>(p, s). length s)") auto

section \<open>Response parser: \<open>get_rate\<close>\<close>

record rating =
  decrease_probability :: int
  increase_probability :: int
  informativeness :: int

text \<open>
  \<open>forecasts\<close> holds tuples of groups when it comes from \<open>findall\<close>, and two strings
  when it is the default \<^verbatim>\<open>["50%", "50%"]\<close>. Both are indexed with \<open>[i]\<close>: a
  tuple gives its i-th group, a string its i-th character as a string of length one.
\<close>

datatype pyseq = Tuple "string list" | Str string

definition list_index :: "'a list \<Rightarrow> nat \<Rightarrow> py_error + 'a" where
  "list_index xs i = (if i < length xs then Inr (xs ! i) else Inl IndexError)"

fun seq_index :: "pyseq \<Rightarrow> nat \<Rightarrow> py_error + string" where
  "seq_index (Tuple gs) i = list_index gs i"
| "seq_index (Str s) i = (if i < length s then Inr [s ! i] else Inl IndexError)"

definition bind_err :: "py_error + 'a \<Rightarrow> ('a \<Rightarrow> py_error + 'b) \<Rightarrow> py_error + 'b" where
  "bind_err m f = (case m of Inl e \<Rightarrow> Inl e | Inr x \<Rightarrow> f x)"

text \<open>
  The forecast part of \<open>get_rate\<close>: the matches of the first pattern, else the first
  match of the second pattern with its two groups swapped, else the default.
\<close>

definition get_forecasts :: "string \<Rightarrow> pyseq list" where
  "get_forecasts lower_summary =
     (let forecasts = map Tuple (findall forecast_pattern_1 lower_summary)
      in if forecasts = []
         then (let swap = findall forecast_pattern_2 lower_summary;
                   forecasts' =
                     (if swap \<noteq> [] \<and> 2 \<le> length (hd swap)
                      then [Tuple [hd swap ! 1, hd swap ! 0]] else forecasts)
               in if swap = [] then [Str ''50%'', Str ''50%''] else forecasts')
         else forecasts)"

text \<open>
  The informativeness part. For a pattern with one group Python's \<open>findall\<close> gives
  the group itself; \<open>findall\<close> here gives the list of groups of each match, and
  \<open>informativeness[0]\<close> is the only group of the first match.
\<close>

definition get_informativeness :: "string \<Rightarrow> py_error + int" where
  "get_informativeness lower_summary =
     (let found = findall informativeness_pattern lower_summary
      in if found = [] then Inr 50
         else bind_err (list_index (hd found) 0) (\<lambda>g. py_int (replace_percent g)))"

definition get_rate :: "string \<Rightarrow> py_error + rating" where
  "get_rate summary =
     (let lower_summary = lower summary;
          forecasts = get_forecasts lower_summary
      in bind_err (get_informativeness lower_summary) (\<lambda>inf.
         bind_err (list_index forecasts 0) (\<lambda>f0.
         bind_err (seq_index f0 0) (\<lambda>d.
         bind_err (py_int (replace_percent d)) (\<lambda>decrease.
         bind_err (seq_index f0 1) (\<lambda>i.
         bind_err (py_int (replace_percent i)) (\<lambda>increase.
           Inr \<lparr>decrease_probability = decrease,
                increase_probability = increase,
                informativeness = inf\<rparr>)))))))"

text \<open>
  Where a pattern occurs: \<open>occurs_before p t n\<close> when a match of \<open>p\<close> starts at one
  of the first \<open>n\<close> positions of \<open>t\<close>, \<open>occurs p t\<close> when one starts anywhere.
\<close>

definition occurs_before :: "rx list \<Rightarrow> string \<Rightarrow> nat \<Rightarrow> bool" where
  "occurs_before p t n = list_ex (\<lambda>i. match_rx p (drop i t) \<noteq> None) [0..<n]"

definition occurs :: "rx list \<Rightarrow> string \<Rightarrow> bool" where
  "occurs p t = occurs_before p t (Suc (length t))"




section \<open>Model pool and request dispatcher: \<open>request_processing\<close>\<close>

text \<open>
  A handle of the pool is a \<open>GenerativeModel\<close> client; \<open>create_models\<close> builds three
  of them for the same remote model.
\<close>

datatype model = GenerativeModel string

definition create_models :: "model list" where
  "create_models =
     [GenerativeModel ''gemini-1.5-flash-001'',
      GenerativeModel ''gemini-1.5-flash-001'',
      GenerativeModel ''gemini-1.5-flash-001'']"

text \<open>
  What \<open>model.generate_content(request)\<close> does is outside the program: it returns a
  value, \<open>Returns (Some r)\<close> when the value is truthy (a response object) and
  \<open>Returns None\<close> when \<open>if response:\<close> fails on it, or it raises an exception whose
  \<open>str(e)\<close> is the text of \<open>Raises\<close>. The backend is a function of the handle, the
  request and the number of the attempt (0 to 5) within one call of \<open>request_processing\<close>.
\<close>

datatype 'r outcome = Returns "'r option" | Raises string

type_synonym 'r backend = "model \<Rightarrow> string \<Rightarrow> nat \<Rightarrow> 'r outcome"

text \<open>
  The state \<open>request_processing\<close> works on: the global list \<open>MODELS\<close>, the durations
  of the calls of \<open>sleep\<close> in the order they were made, and the number of calls of
  \<open>generate_content\<close> so far.
\<close>

record world =
  MODELS :: "model list"
  slept :: "nat list"
  calls :: nat

definition max_retries :: nat where "max_retries = 6"

definition backoff_factor :: nat where "backoff_factor = 5"

text \<open>\<^verbatim>\<open>'429' in str(e)\<close>: the error text mentions the rate-limit status code.\<close>

definition rate_limited :: "string \<Rightarrow> bool" where
  "rate_limited msg = sublist ''429'' msg"

text \<open>
  The body of \<open>for attempt in range(max_retries)\<close>, one equation per iteration.
  \<open>MODELS.pop()\<close> takes the last handle and raises \<open>IndexError\<close> on an empty list;
  \<open>MODELS.append(model)\<close> runs on the rate-limit branch only. A truthy response makes
  the function sleep 10 and return it; a falsy one falls through to the next iteration;
  any other exception is raised again. After the loop the function returns \<open>None\<close>.
  The result is \<open>Inr (Some response)\<close>, \<open>Inr None\<close> or \<open>Inl\<close> the exception.
\<close>

fun request_loop ::
  "'r backend \<Rightarrow> string \<Rightarrow> nat list \<Rightarrow> nat \<Rightarrow> world \<Rightarrow> (py_error + 'r option) \<times> world" where
  "request_loop generate_content request [] delay w = (Inr None, w)"
| "request_loop generate_content request (attempt # rest) delay w =
     (if MODELS w = [] then (Inl IndexError, w)
      else
        (let model = last (MODELS w);
             w1 = w\<lparr>MODELS := butlast (MODELS w), calls := calls w + 1\<rparr>
         in case generate_content model request attempt of
              Returns (Some response) \<Rightarrow>
                (Inr (Some response), w1\<lparr>slept := slept w1 @ [10]\<rparr>)
            | Returns None \<Rightarrow> request_loop generate_content request rest delay w1
            | Raises e \<Rightarrow>
                if rate_limited e
                then request_loop generate_content request rest (delay + backoff_factor)
                       (w1\<lparr>slept := slept w1 @ [delay], MODELS := MODELS w1 @ [model]\<rparr>)
                else (Inl (BackendError e), w1)))"

text \<open>
  \<open>if not MODELS: MODELS = create_models()\<close>: the pool the loop starts from is the
  global list, or three new handles when the list is empty.
\<close>

definition entry_pool :: "world \<Rightarrow> model list" where
  "entry_pool w = (if MODELS w = [] then create_models else MODELS w)"

definition request_processing ::
  "'r backend \<Rightarrow> string \<Rightarrow> world \<Rightarrow> (py_error + 'r option) \<times> world" where
  "request_processing generate_content request w =
     request_loop generate_content request [0..<max_retries] 10 (w\<lparr>MODELS := entry_pool w\<rparr>)"

text \<open>An attempt is rate limited when the backend raises an error that mentions 429.\<close>

definition is_rate_limit_error :: "'r outcome \<Rightarrow> bool" where
  "is_rate_limit_error out = (case out of Raises e \<Rightarrow> rate_limited e | Returns r \<Rightarrow> False)"

text \<open>
  Backends and states the theorems below are instantiated with: one that is rate limited
  five times and then answers, one that is rate limited on every attempt, one that answers
  at once, and one that fails with an error that is no rate limit.
\<close>

definition throttled_then_ok :: "string backend" where
  "throttled_then_ok m request attempt =
     (if attempt < 5 then Raises ''429 Too Many Requests'' else Returns (Some ''ok''))"

definition always_throttled :: "string backend" where
  "always_throttled m request attempt = Raises ''429 Too Many Requests''"


definition always_down :: "string backend" where
  "always_down m request attempt = Raises ''500 Internal Server Error''"

definition empty_world :: world where
  "empty_world = \<lparr>MODELS = [], slept = [], calls = 0\<rparr>"


section \<open>Compound aggregator: \<open>calc_compound\<close> and the rounding of \<open>save_compound\<close>\<close>

text \<open>The loop of \<open>calc_compound\<close> over the ratings, with its three accumulators.\<close>

fun calc_loop :: "rating list \<Rightarrow> int \<times> int \<times> int \<Rightarrow> int \<times> int \<times> int" where
  "calc_loop [] (rise, fall, inform) = (rise, fall, inform)"
| "calc_loop (news_rate # rest) (rise, fall, inform) =
     calc_loop rest
       (rise + increase_probability news_rate * informativeness news_rate,
        fall + decrease_probability news_rate * informativeness news_rate,
        inform + informativeness news_rate)"

text \<open>
  \<open>a / b\<close> on two Python integers raises \<open>ZeroDivisionError\<close> when \<open>b\<close> is 0. Python
  gives the quotient as a double; the model keeps the exact quotient, a rational.
\<close>

definition py_truediv :: "int \<Rightarrow> int \<Rightarrow> py_error + rat" where
  "py_truediv a b = (if b = 0 then Inl ZeroDivisionError else Inr (of_int a / of_int b))"

definition calc_compound :: "rating list \<Rightarrow> py_error + rat \<times> rat" where
  "calc_compound rating_list =
     (case calc_loop rating_list (0, 0, 0) of
        (rise, fall, inform) \<Rightarrow>
          bind_err (py_truediv fall inform) (\<lambda>fall_prob.
          bind_err (py_truediv rise inform) (\<lambda>rise_prob.
            Inr (fall_prob, rise_prob))))"

text \<open>
  \<open>round(x, 2)\<close>: the multiple of 1/100 nearest to \<open>x\<close>. Where the exact quotient lies
  halfway between two of them, the double Python rounds lies on either side of the tie or
  on it, so the direction of a tie is a parameter \<open>up\<close> of the model (\<open>up y\<close> for the
  tie \<open>y / 100\<close>); \<open>half_even\<close> is Python's rule for a double that is a tie exactly.
\<close>

definition round2 :: "(rat \<Rightarrow> bool) \<Rightarrow> rat \<Rightarrow> rat" where
  "round2 up x =
     (let y = x * 100; f = \<lfloor>y\<rfloor>
      in if y - of_int f < 1 / 2 then of_int f / 100
         else if 1 / 2 < y - of_int f then of_int (f + 1) / 100
         else if up y then of_int (f + 1) / 100 else of_int f / 100)"

definition half_even :: "rat \<Rightarrow> bool" where
  "half_even y = odd \<lfloor>y\<rfloor>"

record sentiment_compound =
  fall_probability :: rat
  rise_probability :: rat

text \<open>
  What \<open>save_compound\<close> computes for one company from its rating list: the two values
  of \<open>calc_compound\<close>, each rounded to two decimals. An exception of \<open>calc_compound\<close>
  is not a \<open>SQLAlchemyError\<close> and leaves \<open>save_compound\<close> as it is.
\<close>

definition compound_of :: "(rat \<Rightarrow> bool) \<Rightarrow> rating list \<Rightarrow> py_error + sentiment_compound" where
  "compound_of up rating_list =
     bind_err (calc_compound rating_list) (\<lambda>(fall_prob, rise_prob).
       Inr \<lparr>fall_probability = round2 up fall_prob,
            rise_probability = round2 up rise_prob\<rparr>)"

text \<open>The sums the aggregator is specified with, and two ratings to evaluate it on.\<close>

definition weighted_falls :: "rating list \<Rightarrow> int" where
  "weighted_falls rs = (\<Sum>r\<leftarrow>rs. decrease_probability r * informativeness r)"

definition weighted_rises :: "rating list \<Rightarrow> int" where
  "weighted_rises rs = (\<Sum>r\<leftarrow>rs. increase_probability r * informativeness r)"

definition total_weight :: "rating list \<Rightarrow> int" where
  "total_weight rs = (\<Sum>r\<leftarrow>rs. informativeness r)"

definition two_decimals :: "rat \<Rightarrow> bool" where
  "two_decimals x = (x * 100 = of_int \<lfloor>x * 100\<rfloor>)"

definition example_ratings :: "rating list" where
  "example_ratings =
     [\<lparr>decrease_probability = 20, increase_probability = 80, informativeness = 100\<rparr>,
      \<lparr>decrease_probability = 60, increase_probability = 40, informativeness = 50\<rparr>]"

section \<open>The patterns in a response text\<close>

lemma occurs_beforeI:
  assumes "i < n" and "match_rx p (drop i t) \<noteq> None"
  shows "occurs_before p t n"
proof -
  have "i \<in> set [0..<n]" using assms(1) by simp
  then have "\<exists>i\<in>set [0..<n]. match_rx p (drop i t) \<noteq> None" using assms(2) by (rule bexI [rotated])
  then show ?thesis unfolding occurs_before_def list_ex_iff .
qed


lemma occurs_beforeD:
  assumes "\<not> occurs_before p t n" and "i < n"
  shows "match_rx p (drop i t) = None"
proof (rule ccontr)
  assume "match_rx p (drop i t) \<noteq> None"
  with assms(2) have "occurs_before p t n" by (rule occurs_beforeI)
  with assms(1) show False by (rule notE)
qed

lemma not_occurs_beforeI:
  assumes "\<And>i. i < n \<Longrightarrow> match_rx p (drop i t) = None"
  shows "\<not> occurs_before p t n"
proof
  assume "occurs_before p t n"
  then have "\<exists>i\<in>set [0..<n]. match_rx p (drop i t) \<noteq> None"
    unfolding occurs_before_def list_ex_iff .
  then obtain i where i: "i \<in> set [0..<n]" and m: "match_rx p (drop i t) \<noteq> None" ..
  from i have "i < n" by simp
  then have "match_rx p (drop i t) = None" by (rule assms)
  with m show False by (rule notE)
qed


lemma not_isdigit_percent: "\<not> isdigit CHR ''%''"
  by (simp add: isdigit_def)




lemma findall_no_match: "match_rx p (c # cs) = None \<Longrightarrow> findall p (c # cs) = findall p cs"
  by (subst findall.simps) simp

lemma findall_Nil: "match_rx p [] = None \<Longrightarrow> findall p [] = []"
  by (subst findall.simps) simp

lemma findall_match: "match_rx p s = Some (gs, rest) \<Longrightarrow> \<exists>others. findall p s = gs # others"
  by (subst findall.simps) simp

lemma findall_skip:
  "\<not> occurs_before p (pre @ t) (length pre) \<Longrightarrow> findall p (pre @ t) = findall p t"
proof (induction pre)
  case Nil
  then show ?case by simp
next
  case (Cons c pre)
  have 0: "match_rx p (c # pre @ t) = None"
    using occurs_beforeD [OF Cons.prems, of 0] by simp
  have "\<not> occurs_before p (pre @ t) (length pre)"
  proof (rule not_occurs_beforeI)
    fix i assume "i < length pre"
    then have "Suc i < length (c # pre)" by simp
    from occurs_beforeD [OF Cons.prems this]
    show "match_rx p (drop i (pre @ t)) = None" by simp
  qed
  then have "findall p (pre @ t) = findall p t" by (rule Cons.IH)
  then show ?case using findall_no_match [OF 0] by simp
qed

lemma findall_absent:
  assumes "\<not> occurs p t"
  shows "findall p t = []"
proof -
  have a: "\<not> occurs_before p t (Suc (length t))" using assms by (simp add: occurs_def)
  have e: "match_rx p [] = None" using occurs_beforeD [OF a, of "length t"] by simp
  have "\<not> occurs_before p (t @ []) (length t)"
  proof (rule not_occurs_beforeI)
    fix i assume "i < length t"
    then have "i < Suc (length t)" by simp
    from occurs_beforeD [OF a this] show "match_rx p (drop i (t @ [])) = None" by simp
  qed
  then have "findall p (t @ []) = findall p []" by (rule findall_skip)
  then show ?thesis using findall_Nil [OF e] by simp
qed


lemma findall_head_is_match:
  "findall p s = gs # others \<Longrightarrow> \<exists>t rest. match_rx p t = Some (gs, rest)"
proof (induction "length s" arbitrary: s rule: less_induct)
  case less
  show ?case
  proof (cases "match_rx p s")
    case None
    show ?thesis
    proof (cases s)
      case Nil
      with None have "findall p s = []" by (simp add: findall_Nil)
      with less.prems show ?thesis by simp
    next
      case (Cons c cs)
      with None have "findall p s = findall p cs" by (simp add: findall_no_match)
      with less.prems have "findall p cs = gs # others" by simp
      moreover have "length cs < length s" using Cons by simp
      ultimately show ?thesis by (rule less.hyps [rotated])
    qed
  next
    case (Some a)
    obtain g rest where a: "a = (g, rest)" by (cases a)
    from findall_match [of p s g rest] Some a obtain m where "findall p s = g # m" by auto
    with less.prems have "g = gs" by simp
    with Some a show ?thesis by blast
  qed
qed

lemma match_lit_shape:
  "match_rx (Lit l # p) s = Some (gs, rest) \<Longrightarrow> \<exists>s'. match_rx p s' = Some (gs, rest)"
  by (auto split: if_splits)

lemma match_digits_shape:
  assumes "match_rx (DigitsPct # p) s = Some (gs, rest)"
  shows "\<exists>ds gs' s'. gs = (ds @ ''%'') # gs' \<and> ds \<noteq> [] \<and> list_all isdigit ds \<and>
           match_rx p s' = Some (gs', rest)"
proof -
  have d: "list_all isdigit (takeWhile isdigit s)"
    by (auto simp: list_all_iff dest: set_takeWhileD)
  show ?thesis using assms d
    by (auto simp: Let_def split: if_splits list.splits option.splits)
qed

lemma match_informativeness_shape:
  assumes "match_rx informativeness_pattern t = Some (gs, rest)"
  shows "\<exists>ds. gs = [ds @ ''%''] \<and> ds \<noteq> [] \<and> list_all isdigit ds"
proof -
  from assms obtain s1 where "match_rx [DigitsPct, Lit '')''] s1 = Some (gs, rest)"
    unfolding informativeness_pattern_def by (blast dest: match_lit_shape)
  then obtain ds gs' s2 where g: "gs = (ds @ ''%'') # gs'" "ds \<noteq> []" "list_all isdigit ds"
    and "match_rx [Lit '')''] s2 = Some (gs', rest)"
    by (blast dest: match_digits_shape)
  then obtain s3 where "match_rx [] s3 = Some (gs', rest)" by (blast dest: match_lit_shape)
  then have "gs' = []" by simp
  with g show ?thesis by blast
qed

lemma py_int_group:
  assumes "ds \<noteq> []" and "list_all isdigit ds"
  shows "py_int (replace_percent (ds @ ''%'')) = Inr (decimal ds)"
proof -
  have "\<forall>c\<in>set ds. c \<noteq> CHR ''%''"
    using assms(2) not_isdigit_percent by (auto simp: list_all_iff)
  then have "filter (\<lambda>c. c \<noteq> CHR ''%'') ds = ds" by (simp add: filter_id_conv)
  then have "replace_percent (ds @ ''%'') = ds" by (simp add: replace_percent_def)
  then show ?thesis using assms by (simp add: py_int_def)
qed

text \<open>The informativeness part of \<open>get_rate\<close> never raises.\<close>

lemma get_informativeness_total: "\<exists>n. get_informativeness t = Inr n"
proof (cases "findall informativeness_pattern t")
  case Nil
  then show ?thesis by (simp add: get_informativeness_def)
next
  case (Cons gs others)
  then obtain u rest where "match_rx informativeness_pattern u = Some (gs, rest)"
    by (blast dest: findall_head_is_match)
  then obtain ds where "gs = [ds @ ''%'']" "ds \<noteq> []" "list_all isdigit ds"
    by (blast dest: match_informativeness_shape)
  then show ?thesis
    using Cons by (simp add: get_informativeness_def bind_err_def list_index_def py_int_group)
qed





section \<open>The response parser: defaults and order of the forecast\<close>

text \<open>Without an informativeness pattern the informativeness is the default 50.\<close>

lemma get_informativeness_default:
  assumes "\<not> occurs informativeness_pattern (lower s)"
  shows "get_informativeness (lower s) = Inr 50"
  using findall_absent [OF assms] by (simp add: get_informativeness_def)

lemma py_int_5: "py_int (replace_percent ''5'') = Inr 5"
  by code_simp

lemma py_int_0: "py_int (replace_percent ''0'') = Inr 0"
  by code_simp

text \<open>
  Without a forecast pattern the rating is read off the characters of the first default
  string: decrease 5 and increase 0, for every such text.
\<close>

lemma get_rate_default_forecast:
  assumes "\<not> occurs forecast_pattern_1 (lower s)" and "\<not> occurs forecast_pattern_2 (lower s)"
  shows "\<exists>inf. get_rate s =
           Inr \<lparr>decrease_probability = 5, increase_probability = 0, informativeness = inf\<rparr>"
proof -
  obtain n where n: "get_informativeness (lower s) = Inr n"
    using get_informativeness_total by blast
  have f: "get_forecasts (lower s) = [Str ''50%'', Str ''50%'']"
    using findall_absent [OF assms(1)] findall_absent [OF assms(2)]
    by (simp add: get_forecasts_def)
  have "get_rate s =
           Inr \<lparr>decrease_probability = 5, increase_probability = 0, informativeness = n\<rparr>"
    unfolding get_rate_def Let_def n f bind_err_def
    by (simp add: list_index_def py_int_5 py_int_0)
  then show ?thesis by blast
qed

text \<open>
  C1. A response text with no forecast pattern should get the default rating
  (decrease 50, increase 50), and one with no informativeness pattern the
  informativeness 50. The default \<^verbatim>\<open>["50%", "50%"]\<close> is a list of two strings
  where the other branches build a list of tuples, so \<open>forecasts[0][0]\<close> and
  \<open>forecasts[0][1]\<close> are the characters \<open>5\<close> and \<open>0\<close> of the first string: on the
  text below \<open>get_rate\<close> returns decrease 5 and increase 0. The informativeness is the
  default 50.
\<close>

theorem get_rate_no_forecast_pattern:
  "get_rate ''The outlook is unclear.'' =
     Inr \<lparr>decrease_probability = 5, increase_probability = 0, informativeness = 50\<rparr>"
  by code_simp




section \<open>The dispatcher's retry loop\<close>

lemma request_loop_rate_limited_step:
  assumes "MODELS w \<noteq> []" and "\<And>m. is_rate_limit_error (gc m req a)"
  shows "request_loop gc req (a # rest) delay w =
         request_loop gc req rest (delay + backoff_factor)
           (w\<lparr>slept := slept w @ [delay], calls := calls w + 1\<rparr>)"
proof -
  from assms(2) [of "last (MODELS w)"] obtain e
    where e: "gc (last (MODELS w)) req a = Raises e" "rate_limited e"
    by (cases "gc (last (MODELS w)) req a") (simp_all add: is_rate_limit_error_def)
  show ?thesis using assms(1) e by (cases w) (simp add: Let_def)
qed

lemma backoff_shift:
  "map (\<lambda>k. delay + backoff_factor * k) [0..<Suc n] =
   delay # map (\<lambda>k. delay + backoff_factor + backoff_factor * k) [0..<n]"
proof -
  have "[0..<Suc n] = 0 # map Suc [0..<n]"
    by (simp add: upt_conv_Cons map_Suc_upt del: upt_Suc)
  then show ?thesis by (simp add: o_def del: upt_Suc)
qed

text \<open>
  A run of rate-limited attempts leaves the pool as it was, sleeps the growing delays
  and goes on with the attempts that remain.
\<close>

lemma request_loop_rate_limited:
  assumes "MODELS w \<noteq> []" and "\<And>m a. a \<in> set as \<Longrightarrow> is_rate_limit_error (gc m req a)"
  shows "request_loop gc req (as @ rest) delay w =
         request_loop gc req rest (delay + backoff_factor * length as)
           (w\<lparr>slept := slept w @ map (\<lambda>k. delay + backoff_factor * k) [0..<length as],
              calls := calls w + length as\<rparr>)"
  using assms
proof (induction as arbitrary: delay w)
  case Nil
  then show ?case by simp
next
  case (Cons a as)
  let ?w = "w\<lparr>slept := slept w @ [delay], calls := calls w + 1\<rparr>"
  have a: "\<And>m. is_rate_limit_error (gc m req a)" using Cons.prems(2) by simp
  have step: "request_loop gc req ((a # as) @ rest) delay w =
         request_loop gc req (as @ rest) (delay + backoff_factor) ?w"
    using request_loop_rate_limited_step [of w gc req a "as @ rest" delay, OF Cons.prems(1) a]
    by simp
  have m: "MODELS ?w \<noteq> []" using Cons.prems by simp
  have as: "\<And>m a. a \<in> set as \<Longrightarrow> is_rate_limit_error (gc m req a)"
    using Cons.prems(2) by simp
  have ih: "request_loop gc req (as @ rest) (delay + backoff_factor) ?w =
         request_loop gc req rest (delay + backoff_factor + backoff_factor * length as)
           (?w\<lparr>slept := slept ?w @
                   map (\<lambda>k. delay + backoff_factor + backoff_factor * k) [0..<length as],
              calls := calls ?w + length as\<rparr>)"
    using Cons.IH [of ?w "delay + backoff_factor", OF m as] by simp
  have sl: "map (\<lambda>k. delay + backoff_factor * k) [0..<length (a # as)] =
        delay # map (\<lambda>k. delay + backoff_factor + backoff_factor * k) [0..<length as]"
    using backoff_shift [of delay "length as"] by simp
  show ?case unfolding step ih sl by (simp add: algebra_simps)
qed

lemma request_loop_success_step:
  assumes "MODELS w \<noteq> []" and "\<And>m. gc m req a = Returns (Some response)"
  shows "request_loop gc req (a # rest) delay w =
         (Inr (Some response),
          w\<lparr>MODELS := butlast (MODELS w), calls := calls w + 1, slept := slept w @ [10]\<rparr>)"
  using assms by (cases w) (simp add: Let_def)

lemma range_split: "k < n \<Longrightarrow> [0..<n] = [0..<k] @ k # [Suc k..<n]"
  using upt_add_eq_append [of 0 k "n - k"] by (simp add: upt_conv_Cons)

lemma entry_pool_nonempty: "entry_pool w \<noteq> []"
  by (simp add: entry_pool_def create_models_def)

text \<open>The whole dispatch when attempt \<open>k\<close> is the first that is not rate limited and succeeds.\<close>

lemma dispatch_success_after:
  assumes k: "k < max_retries"
    and rl: "\<And>m i. i < k \<Longrightarrow> is_rate_limit_error (gc m req i)"
    and ok: "\<And>m. gc m req k = Returns (Some response)"
  shows "request_processing gc req w =
     (Inr (Some response),
      w\<lparr>MODELS := butlast (entry_pool w),
        calls := calls w + k + 1,
        slept := slept w @ map (\<lambda>i. 10 + backoff_factor * i) [0..<k] @ [10]\<rparr>)"
proof -
  let ?w0 = "w\<lparr>MODELS := entry_pool w\<rparr>"
  let ?w1 = "?w0\<lparr>slept := slept ?w0 @ map (\<lambda>i. 10 + backoff_factor * i) [0..<length [0..<k]],
              calls := calls ?w0 + length [0..<k]\<rparr>"
  have ne: "MODELS ?w0 \<noteq> []" by (simp add: entry_pool_nonempty)
  have ne1: "MODELS ?w1 \<noteq> []" by (simp add: entry_pool_nonempty)
  have rl': "\<And>m a. a \<in> set [0..<k] \<Longrightarrow> is_rate_limit_error (gc m req a)"
    using rl by simp
  have "request_processing gc req w =
        request_loop gc req ([0..<k] @ k # [Suc k..<max_retries]) 10 ?w0"
    using range_split [OF k] by (simp add: request_processing_def)
  also have "\<dots> = request_loop gc req (k # [Suc k..<max_retries])
                    (10 + backoff_factor * length [0..<k]) ?w1"
    by (rule request_loop_rate_limited [of ?w0 "[0..<k]" gc req, OF ne rl'])
  also have "\<dots> = (Inr (Some response),
          ?w1\<lparr>MODELS := butlast (MODELS ?w1), calls := calls ?w1 + 1,
              slept := slept ?w1 @ [10]\<rparr>)"
    by (rule request_loop_success_step [of ?w1 gc req k, OF ne1 ok])
  also have "\<dots> = (Inr (Some response),
      w\<lparr>MODELS := butlast (entry_pool w),
        calls := calls w + k + 1,
        slept := slept w @ map (\<lambda>i. 10 + backoff_factor * i) [0..<k] @ [10]\<rparr>)"
    by simp
  finally show ?thesis .
qed

text \<open>The whole dispatch when every attempt is rate limited.\<close>

lemma dispatch_exhausted:
  assumes rl: "\<And>m i. i < max_retries \<Longrightarrow> is_rate_limit_error (gc m req i)"
  shows "request_processing gc req w =
     (Inr None,
      w\<lparr>MODELS := entry_pool w,
        calls := calls w + max_retries,
        slept := slept w @ map (\<lambda>i. 10 + backoff_factor * i) [0..<max_retries]\<rparr>)"
proof -
  let ?w0 = "w\<lparr>MODELS := entry_pool w\<rparr>"
  let ?w1 = "?w0\<lparr>slept := slept ?w0 @
                 map (\<lambda>i. 10 + backoff_factor * i) [0..<length [0..<max_retries]],
              calls := calls ?w0 + length [0..<max_retries]\<rparr>"
  have ne: "MODELS ?w0 \<noteq> []" by (simp add: entry_pool_nonempty)
  have rl': "\<And>m a. a \<in> set [0..<max_retries] \<Longrightarrow> is_rate_limit_error (gc m req a)"
    using rl by simp
  have "request_processing gc req w = request_loop gc req ([0..<max_retries] @ []) 10 ?w0"
    by (simp add: request_processing_def)
  also have "\<dots> = request_loop gc req [] (10 + backoff_factor * length [0..<max_retries]) ?w1"
    by (rule request_loop_rate_limited [of ?w0 "[0..<max_retries]" gc req, OF ne rl'])
  also have "\<dots> = (Inr None,
      w\<lparr>MODELS := entry_pool w,
        calls := calls w + max_retries,
        slept := slept w @ map (\<lambda>i. 10 + backoff_factor * i) [0..<max_retries]\<rparr>)"
    by simp
  finally show ?thesis .
qed

text \<open>The whole dispatch when the first attempt fails with an error that is no rate limit.\<close>

lemma dispatch_hard_failure:
  assumes "\<And>m. gc m req 0 = Raises e" and "\<not> rate_limited e"
  shows "request_processing gc req w =
     (Inl (BackendError e), w\<lparr>MODELS := butlast (entry_pool w), calls := calls w + 1\<rparr>)"
proof -
  have "[0..<max_retries] = 0 # [1..<max_retries]"
    by (simp add: max_retries_def upt_conv_Cons)
  then show ?thesis
    using assms by (simp add: request_processing_def entry_pool_nonempty Let_def)
qed

lemma backoff_5: "map (\<lambda>i. 10 + backoff_factor * i) [0..<5] = [10, 15, 20, 25, 30]"
  by (simp add: backoff_factor_def upt_rec)

lemma backoff_6:
  "map (\<lambda>i. 10 + backoff_factor * i) [0..<max_retries] = [10, 15, 20, 25, 30, 35]"
  by (simp add: backoff_factor_def max_retries_def upt_rec)

lemma rate_limited_429: "rate_limited ''429 Too Many Requests''"
  by code_simp

lemma not_rate_limited_500: "\<not> rate_limited ''500 Internal Server Error''"
  by code_simp

lemma throttled_then_ok_early: "i < 5 \<Longrightarrow> is_rate_limit_error (throttled_then_ok m req i)"
  by (simp add: throttled_then_ok_def is_rate_limit_error_def rate_limited_429)

lemma always_throttled_all: "is_rate_limit_error (always_throttled m req i)"
  by (simp add: always_throttled_def is_rate_limit_error_def rate_limited_429)

text \<open>
  C3. When the first five attempts are rate limited and the sixth succeeds,
  \<open>request_processing\<close> returns the response of the sixth attempt, and the delays it
  sleeps before the five retries are 10, 15, 20, 25 and 30; the last 10 is the pause
  after the success. Six calls of the backend are made.
\<close>

theorem dispatch_five_rate_limited_then_success:
  assumes "\<And>m i. i < 5 \<Longrightarrow> is_rate_limit_error (gc m req i)"
    and "\<And>m. gc m req 5 = Returns (Some response)"
  shows "fst (request_processing gc req w) = Inr (Some response) \<and>
         slept (snd (request_processing gc req w)) = slept w @ [10, 15, 20, 25, 30] @ [10] \<and>
         calls (snd (request_processing gc req w)) = calls w + 6"
proof -
  have k: "5 < max_retries" by (simp add: max_retries_def)
  note run = dispatch_success_after [of 5 gc req response w, OF k assms]
  show ?thesis by (simp add: run backoff_5)
qed

theorem dispatch_five_rate_limited_then_success_witness:
  "fst (request_processing throttled_then_ok ''analyse'' empty_world) = Inr (Some ''ok'') \<and>
   slept (snd (request_processing throttled_then_ok ''analyse'' empty_world)) =
     [10, 15, 20, 25, 30, 10]"
proof -
  have ok: "\<And>m. throttled_then_ok m ''analyse'' 5 = Returns (Some ''ok'')"
    by (simp add: throttled_then_ok_def)
  show ?thesis
    using dispatch_five_rate_limited_then_success
      [of throttled_then_ok "''analyse''" "''ok''" empty_world, OF throttled_then_ok_early ok]
    by (simp add: empty_world_def)
qed

text \<open>
  C4. When every attempt is rate limited, \<open>request_processing\<close> calls the backend
  exactly six times and then returns \<open>None\<close>: it raises nothing. A backend whose first
  error is no rate limit makes it raise that error instead, a different outcome.
\<close>

theorem dispatch_exhausts_after_six_attempts:
  assumes "\<And>m i. i < 6 \<Longrightarrow> is_rate_limit_error (gc m req i)"
    and "\<And>m. gc' m req 0 = Raises e" and "\<not> rate_limited e"
  shows "fst (request_processing gc req w) = Inr None \<and>
         calls (snd (request_processing gc req w)) = calls w + 6 \<and>
         slept (snd (request_processing gc req w)) = slept w @ [10, 15, 20, 25, 30, 35] \<and>
         (\<forall>x. fst (request_processing gc req w) \<noteq> Inl x) \<and>
         fst (request_processing gc' req w) = Inl (BackendError e) \<and>
         fst (request_processing gc' req w) \<noteq> fst (request_processing gc req w)"
proof -
  have rl: "\<And>m i. i < max_retries \<Longrightarrow> is_rate_limit_error (gc m req i)"
    using assms(1) by (simp add: max_retries_def)
  have run: "request_processing gc req w =
     (Inr None,
      w\<lparr>MODELS := entry_pool w,
        calls := calls w + max_retries,
        slept := slept w @ map (\<lambda>i. 10 + backoff_factor * i) [0..<max_retries]\<rparr>)"
    by (rule dispatch_exhausted [of gc req w, OF rl])
  have fail: "request_processing gc' req w =
     (Inl (BackendError e), w\<lparr>MODELS := butlast (entry_pool w), calls := calls w + 1\<rparr>)"
    by (rule dispatch_hard_failure [of gc' req e w, OF assms(2,3)])
  have "fst (request_processing gc req w) = Inr None"
    and "calls (snd (request_processing gc req w)) = calls w + 6"
    and "slept (snd (request_processing gc req w)) = slept w @ [10, 15, 20, 25, 30, 35]"
    and "fst (request_processing gc' req w) = Inl (BackendError e)"
    by (simp_all only: run fail backoff_6 fst_conv snd_conv) (simp_all add: max_retries_def)
  then show ?thesis by simp
qed

theorem dispatch_exhausts_after_six_attempts_witness:
  "fst (request_processing always_throttled ''analyse'' empty_world) = Inr None \<and>
   calls (snd (request_processing always_throttled ''analyse'' empty_world)) = 6 \<and>
   fst (request_processing always_down ''analyse'' empty_world) =
     Inl (BackendError ''500 Internal Server Error'')"
proof -
  have down: "\<And>m. always_down m ''analyse'' 0 = Raises ''500 Internal Server Error''"
    by (simp add: always_down_def)
  show ?thesis
    using dispatch_exhausts_after_six_attempts
      [of always_throttled "''analyse''" always_down "''500 Internal Server Error''" empty_world,
       OF always_throttled_all down not_rate_limited_500]
    by (simp add: empty_world_def)
qed




section \<open>The compound aggregator\<close>

lemma calc_loop_sums:
  "calc_loop rs (rise, fall, inform) =
     (rise + weighted_rises rs, fall + weighted_falls rs, inform + total_weight rs)"
  by (induction rs arbitrary: rise fall inform)
     (simp_all add: weighted_rises_def weighted_falls_def total_weight_def)

lemma calc_compound_eq:
  "calc_compound rs =
     (if total_weight rs = 0 then Inl ZeroDivisionError
      else Inr (of_int (weighted_falls rs) / of_int (total_weight rs),
                of_int (weighted_rises rs) / of_int (total_weight rs)))"
  by (simp add: calc_compound_def calc_loop_sums py_truediv_def bind_err_def)

lemma compound_of_eq:
  "compound_of up rs =
     (if total_weight rs = 0 then Inl ZeroDivisionError
      else Inr \<lparr>fall_probability =
                  round2 up (of_int (weighted_falls rs) / of_int (total_weight rs)),
                rise_probability =
                  round2 up (of_int (weighted_rises rs) / of_int (total_weight rs))\<rparr>)"
  by (simp add: compound_of_def calc_compound_eq bind_err_def)

lemma round2_scaled:
  "(x * 100 - of_int \<lfloor>x * 100\<rfloor> < 1 / 2 \<longrightarrow> round2 up x * 100 = of_int \<lfloor>x * 100\<rfloor>) \<and>
   (1 / 2 < x * 100 - of_int \<lfloor>x * 100\<rfloor> \<longrightarrow> round2 up x * 100 = of_int \<lfloor>x * 100\<rfloor> + 1) \<and>
   (round2 up x * 100 = of_int \<lfloor>x * 100\<rfloor> \<or> round2 up x * 100 = of_int \<lfloor>x * 100\<rfloor> + 1)"
  by (simp add: round2_def Let_def)

lemma round2_two_decimals: "two_decimals (round2 up x)"
proof -
  have "round2 up x * 100 = of_int \<lfloor>x * 100\<rfloor> \<or> round2 up x * 100 = of_int (\<lfloor>x * 100\<rfloor> + 1)"
    using round2_scaled [of x up] by simp
  then obtain n :: int where "round2 up x * 100 = of_int n" by blast
  then show ?thesis by (simp add: two_decimals_def)
qed


lemma round2_bounds:
  assumes "of_int a \<le> x" and "x \<le> of_int b"
  shows "of_int a \<le> round2 up x \<and> round2 up x \<le> of_int b"
proof -
  define R where "R = round2 up x * 100"
  define y where "y = x * 100"
  define f where "f = \<lfloor>x * 100\<rfloor>"
  have lo: "of_int f \<le> y" and hi: "y < of_int f + 1" unfolding f_def y_def by linarith+
  have c: "(y - of_int f < 1 / 2 \<longrightarrow> R = of_int f) \<and> (R = of_int f \<or> R = of_int f + 1)"
    unfolding R_def y_def f_def using round2_scaled [of x up] by blast
  have ya: "of_int (a * 100) \<le> y" and yb: "y \<le> of_int (b * 100)"
    unfolding y_def using assms by simp_all
  have fa: "a * 100 \<le> f" unfolding f_def using ya unfolding y_def by (simp only: le_floor_iff)
  have fa': "(of_int (a * 100) :: rat) \<le> of_int f" using fa by (simp only: of_int_le_iff)
  have low: "of_int (a * 100) \<le> R" using c fa' by linarith
  have upp: "R \<le> of_int (b * 100)"
  proof (cases "R = of_int f")
    case True
    have "(of_int f :: rat) \<le> of_int (b * 100)" using lo yb by linarith
    with True show ?thesis by simp
  next
    case False
    with c have r: "R = of_int f + 1" and "\<not> y - of_int f < 1 / 2" by blast+
    then have "(of_int f :: rat) < of_int (b * 100)" using yb by linarith
    then have "f < b * 100" by (simp only: of_int_less_iff)
    then have "f + 1 \<le> b * 100" by linarith
    then have "(of_int (f + 1) :: rat) \<le> of_int (b * 100)" by (simp only: of_int_le_iff)
    with r show ?thesis by simp
  qed
  have "(of_int (a * 100) :: rat) = of_int a * 100" "(of_int (b * 100) :: rat) = of_int b * 100"
    by simp_all
  with low upp show ?thesis unfolding R_def by linarith
qed



text \<open>
  C7. When the total informativeness of the rating list is zero (the empty list, or
  every rating with informativeness 0), the aggregator raises an error, the
  \<open>ZeroDivisionError\<close> of the division: it returns no pair at all, so never (0, 0),
  and the error reaches the caller of \<open>save_compound\<close>'s computation.
\<close>

theorem zero_total_weight_is_error:
  assumes "total_weight rating_list = 0"
  shows "calc_compound rating_list = Inl ZeroDivisionError \<and>
         compound_of up rating_list = Inl ZeroDivisionError \<and>
         (\<forall>v. calc_compound rating_list \<noteq> Inr v)"
  using assms by (simp add: calc_compound_eq compound_of_eq)

theorem zero_total_weight_is_error_witness:
  "calc_compound [] = Inl ZeroDivisionError \<and>
   calc_compound
     [\<lparr>decrease_probability = 20, increase_probability = 80, informativeness = 0\<rparr>,
      \<lparr>decrease_probability = 60, increase_probability = 40, informativeness = 0\<rparr>] =
     Inl ZeroDivisionError"
proof -
  have e: "total_weight [] = 0" by (simp add: total_weight_def)
  have z: "total_weight
     [\<lparr>decrease_probability = 20, increase_probability = 80, informativeness = 0\<rparr>,
      \<lparr>decrease_probability = 60, increase_probability = 40, informativeness = 0\<rparr>] = 0"
    by (simp add: total_weight_def)
  show ?thesis
    using zero_total_weight_is_error [OF e, of half_even]
      zero_total_weight_is_error [OF z, of half_even]
    by simp
qed

text \<open>
  C8. Both values of the compound should lie in the interval from 0 to 1. The
  aggregator averages the probabilities of the ratings, which are percentages, and
  divides by the total weight only: a single rating (30, 70, 80) gives 30 and 70.
\<close>

theorem compound_outside_unit_interval:
  "compound_of half_even
     [\<lparr>decrease_probability = 30, increase_probability = 70, informativeness = 80\<rparr>] =
     Inr \<lparr>fall_probability = 30, rise_probability = 70\<rparr> \<and> \<not> (30 :: rat) \<le> 1 \<and> \<not> (70 :: rat) \<le> 1"
  by code_simp

text \<open>
  C8, as the code has it. When the aggregator succeeds on ratings whose two
  probabilities lie between 0 and 100 and whose informativeness is not negative, both
  values of the compound lie between 0 and 100, the scale of the ratings, and are
  multiples of 1/100.
\<close>

theorem compound_within_rating_scale:
  assumes "\<forall>r \<in> set rating_list.
             0 \<le> decrease_probability r \<and> decrease_probability r \<le> 100 \<and>
             0 \<le> increase_probability r \<and> increase_probability r \<le> 100 \<and>
             0 \<le> informativeness r"
    and "compound_of up rating_list = Inr c"
  shows "0 \<le> fall_probability c \<and> fall_probability c \<le> 100 \<and>
         0 \<le> rise_probability c \<and> rise_probability c \<le> 100 \<and>
         two_decimals (fall_probability c) \<and> two_decimals (rise_probability c)"
proof -
  have nz: "total_weight rating_list \<noteq> 0"
    using assms(2) by (auto simp: compound_of_eq split: if_splits)
  have w: "0 \<le> total_weight rating_list"
    using assms(1) unfolding total_weight_def by (induction rating_list) auto
  have f0: "0 \<le> weighted_falls rating_list"
    using assms(1) unfolding weighted_falls_def by (induction rating_list) auto
  have r0: "0 \<le> weighted_rises rating_list"
    using assms(1) unfolding weighted_rises_def by (induction rating_list) auto
  have f1: "weighted_falls rating_list \<le> 100 * total_weight rating_list"
    using assms(1) unfolding weighted_falls_def total_weight_def
  proof (induction rating_list)
    case Nil
    then show ?case by simp
  next
    case (Cons a rs)
    have "decrease_probability a * informativeness a \<le> 100 * informativeness a"
      using Cons.prems by (simp add: mult_right_mono)
    with Cons show ?case by simp
  qed
  have r1: "weighted_rises rating_list \<le> 100 * total_weight rating_list"
    using assms(1) unfolding weighted_rises_def total_weight_def
  proof (induction rating_list)
    case Nil
    then show ?case by simp
  next
    case (Cons a rs)
    have "increase_probability a * informativeness a \<le> 100 * informativeness a"
      using Cons.prems by (simp add: mult_right_mono)
    with Cons show ?case by simp
  qed
  have pos: "0 < total_weight rating_list" using nz w by simp
  define W :: rat where "W = of_int (total_weight rating_list)"
  have Wpos: "0 < W" unfolding W_def using pos by simp
  have qf: "of_int 0 \<le> of_int (weighted_falls rating_list) / W \<and>
            of_int (weighted_falls rating_list) / W \<le> of_int 100"
  proof -
    have "(of_int (weighted_falls rating_list) :: rat) \<le> of_int (100 * total_weight rating_list)"
      using f1 by (simp only: of_int_le_iff)
    then have "(of_int (weighted_falls rating_list) :: rat) \<le> 100 * W" unfolding W_def by simp
    moreover have "(0 :: rat) \<le> of_int (weighted_falls rating_list)" using f0 by simp
    ultimately show ?thesis using Wpos by (simp add: pos_divide_le_eq)
  qed
  have qr: "of_int 0 \<le> of_int (weighted_rises rating_list) / W \<and>
            of_int (weighted_rises rating_list) / W \<le> of_int 100"
  proof -
    have "(of_int (weighted_rises rating_list) :: rat) \<le> of_int (100 * total_weight rating_list)"
      using r1 by (simp only: of_int_le_iff)
    then have "(of_int (weighted_rises rating_list) :: rat) \<le> 100 * W" unfolding W_def by simp
    moreover have "(0 :: rat) \<le> of_int (weighted_rises rating_list)" using r0 by simp
    ultimately show ?thesis using Wpos by (simp add: pos_divide_le_eq)
  qed
  have c: "fall_probability c = round2 up (of_int (weighted_falls rating_list) / W)"
          "rise_probability c = round2 up (of_int (weighted_rises rating_list) / W)"
    using assms(2) nz unfolding W_def by (auto simp: compound_of_eq)
  have "of_int 0 \<le> fall_probability c \<and> fall_probability c \<le> of_int 100"
    unfolding c using qf by (intro round2_bounds) simp_all
  moreover have "of_int 0 \<le> rise_probability c \<and> rise_probability c \<le> of_int 100"
    unfolding c using qr by (intro round2_bounds) simp_all
  ultimately show ?thesis unfolding c by (simp add: round2_two_decimals)
qed

theorem compound_within_rating_scale_witness:
  "(0 :: rat) \<le> 3333 / 100 \<and> (3333 / 100 :: rat) \<le> 100 \<and>
   (0 :: rat) \<le> 6667 / 100 \<and> (6667 / 100 :: rat) \<le> 100 \<and>
   two_decimals (3333 / 100) \<and> two_decimals (6667 / 100)"
proof -
  have h: "\<forall>r \<in> set example_ratings.
             0 \<le> decrease_probability r \<and> decrease_probability r \<le> 100 \<and>
             0 \<le> increase_probability r \<and> increase_probability r \<le> 100 \<and>
             0 \<le> informativeness r"
    by (simp add: example_ratings_def)
  have c: "compound_of half_even example_ratings =
     Inr \<lparr>fall_probability = 3333 / 100, rise_probability = 6667 / 100\<rparr>"
    by code_simp
  show ?thesis using compound_within_rating_scale [OF h c] by simp
qed



end
